theory Spec2Isabelle
  imports Main
begin

section \<open>Data model of \<open>lib/models/package-info-cache/package-info.js\<close>\<close>

text \<open>
  JavaScript values as far as a parsed \<open>package.json\<close> can hold them. Only the
  \<open>keywords\<close> entry of the manifest is inspected by shape (\<open>Array.isArray\<close>).
\<close>

datatype jsval =
    JUndefined
  | JNull
  | JBool bool
  | JNum int
  | JStr string
  | JArr "jsval list"
  | JObj "(string \<times> jsval) list"

text \<open>
  A plain JavaScript object with string keys is the list of its own entries in the order
  \<open>Object.keys\<close> enumerates them. A well-formed object has no key twice. (JavaScript
  enumerates keys that are array indices first, in ascending order; \<open>addDependencies\<close>
  stores its keys in the order \<open>Object.keys\<close> gave them, which already is that order, and
  no property below depends on the order of the keys of any other object that is built.)
\<close>

type_synonym 'a obj = "(string \<times> 'a) list"

definition wf_obj :: "'a obj \<Rightarrow> bool" where
  "wf_obj ob = distinct (map fst ob)"

definition Object_keys :: "'a obj \<Rightarrow> string list" where
  "Object_keys ob = map fst ob"

definition obj_get :: "'a obj \<Rightarrow> string \<Rightarrow> 'a option" where
  "obj_get ob k = map_of ob k"

text \<open>\<open>ob[k] = v\<close>: an existing key keeps its place, a new key goes to the end.\<close>

primrec obj_set :: "'a obj \<Rightarrow> string \<Rightarrow> 'a \<Rightarrow> 'a obj" where
  "obj_set [] k v = [(k, v)]"
| "obj_set (e # es) k v = (if fst e = k then (k, v) # es else e # obj_set es k v)"

text \<open>
  The parsed manifest \<open>this.pkg\<close>: the two entries this file reads, \<open>pkg.name\<close> and
  \<open>pkg.keywords\<close>.
\<close>

record manifest =
  pkg_name :: string
  pkg_keywords :: jsval

text \<open>
  \<open>this.project\<close> is set from outside on the node of a project. Its class lives in
  \<open>lib/models/project.js\<close>; the field below is the answer of its method
  \<open>isEmberCLIAddon()\<close>.
\<close>

record project =
  isEmberCLIAddon :: bool

text \<open>
  Modelled from the spec: the constants of \<open>./errors\<close> and the class of
  \<open>./error-list\<close> are not part of this file. The error sink accumulates
  (errorKind, errorData) pairs per node; the kind recorded here is "dependencies missing",
  carrying the list of unresolved names.
\<close>

datatype error_type = ERROR_DEPENDENCIES_MISSING | ERROR_OTHER string

type_synonym ErrorList = "(error_type \<times> string list) list"

definition ErrorList_addError :: "ErrorList \<Rightarrow> error_type \<Rightarrow> string list \<Rightarrow> ErrorList" where
  "ErrorList_addError errs errorType errorData = errs @ [(errorType, errorData)]"

text \<open>
  The class \<open>PackageInfo\<close>. A field that JavaScript leaves \<open>undefined\<close> or \<open>null\<close> is
  \<open>None\<close>. \<open>nodeModules\<close> is the \<open>findPackage\<close> method of the node's NodeModulesList
  (a class of another file), when the node has one. The shared \<open>this.cache\<close> is passed
  to the methods that use it.
\<close>

datatype package_info = PackageInfo
  (pkg: manifest)
  (realPath: string)
  (errors: ErrorList)
  (inRepoAddons: "package_info list option")
  (internalAddons: "package_info list option")
  (cliInfo: "package_info option")
  (dependencyPackages: "package_info obj option")
  (devDependencyPackages: "package_info obj option")
  (nodeModules: "(string \<Rightarrow> package_info option) option")
  (valid: bool)
  (hasDumpedInvalidAddonPackages: bool)
  (project: "project option")

text \<open>
  The cache as this file uses it: \<open>cache.ui\<close> (absent, or an object that may have a
  \<open>writeWarnLine\<close> method) and \<open>cache._findPackage(name, dir)\<close>, the ascending-directory
  search.
\<close>

record ui_channel =
  writeWarnLine :: bool

record cache =
  ui :: "ui_channel option"
  findPackage :: "string \<Rightarrow> string \<Rightarrow> package_info option"

text \<open>The two functions of Node's \<open>path\<close> module that the file calls.\<close>

record path_module =
  dirname :: "string \<Rightarrow> string"
  relative :: "string \<Rightarrow> string \<Rightarrow> string"

text \<open>
  Modelled from the spec: the class of \<open>../addon-info\<close> is not part of this file. The
  addon record is immutable and holds name, realPath and manifest.
\<close>

record addon_info =
  addon_name :: string
  addon_path :: string
  addon_pkg :: manifest

definition AddonInfo :: "string \<Rightarrow> string \<Rightarrow> manifest \<Rightarrow> addon_info" where
  "AddonInfo n p m = \<lparr>addon_name = n, addon_path = p, addon_pkg = m\<rparr>"

datatype error = TypeError

section \<open>Methods\<close>

text \<open>\<open>get name()\<close>\<close>

definition PackageInfo_name :: "package_info \<Rightarrow> string" where
  "PackageInfo_name this = pkg_name (pkg this)"

text \<open>\<open>addError(errorType, errorData)\<close>: the node with the entry added to its list.\<close>

definition addError :: "package_info \<Rightarrow> error_type \<Rightarrow> string list \<Rightarrow> package_info" where
  "addError this errorType errorData =
     (case this of PackageInfo p rp errs ira ia cli deps devs nm v dumped pr \<Rightarrow>
        PackageInfo p rp (ErrorList_addError errs errorType errorData) ira ia cli deps devs nm v dumped pr)"

text \<open>
  The first half of the body of the \<open>forEach\<close> of \<open>addDependencies\<close>: the node's own
  \<open>nodeModules\<close> first, \<open>cache._findPackage\<close> from the parent directory of \<open>realPath\<close>
  only when that gave nothing. The second component lists the calls made to
  \<open>cache._findPackage\<close>, each with its two arguments.
\<close>

definition findDependencyPackage ::
  "cache \<Rightarrow> path_module \<Rightarrow> package_info \<Rightarrow> string \<Rightarrow>
     package_info option \<times> (string \<times> string) list" where
  "findDependencyPackage cache path this dependencyName =
     (let dependencyPackage =
            (case nodeModules this of
               Some nm_findPackage \<Rightarrow> nm_findPackage dependencyName
             | None \<Rightarrow> None)
      in (case dependencyPackage of
            None \<Rightarrow>
              (findPackage cache dependencyName (dirname path (realPath this)),
               [(dependencyName, dirname path (realPath this))])
          | Some p \<Rightarrow> (Some p, [])))"

text \<open>
  The whole body. The state of the loop is the object \<open>packages\<close>, the list
  \<open>missingDependencies\<close>, and the calls made to \<open>cache._findPackage\<close> so far.
\<close>

type_synonym resolve_state = "package_info obj \<times> string list \<times> (string \<times> string) list"

definition addDependencies_each ::
  "cache \<Rightarrow> path_module \<Rightarrow> package_info \<Rightarrow> resolve_state \<Rightarrow> string \<Rightarrow> resolve_state" where
  "addDependencies_each cache path this st dependencyName =
     (case st of (packages, missingDependencies, searches) \<Rightarrow>
        (case findDependencyPackage cache path this dependencyName of
           (Some p, called) \<Rightarrow>
             (obj_set packages dependencyName p, missingDependencies, searches @ called)
         | (None, called) \<Rightarrow>
             (packages, missingDependencies @ [dependencyName], searches @ called)))"

text \<open>
  \<open>addDependencies(dependencies)\<close>: the returned value (\<open>None\<close> is \<open>null\<close>), the node
  after the call, and the calls made to \<open>cache._findPackage\<close>.
\<close>

definition addDependencies ::
  "cache \<Rightarrow> path_module \<Rightarrow> package_info \<Rightarrow> string obj option \<Rightarrow>
     package_info obj option \<times> package_info \<times> (string \<times> string) list" where
  "addDependencies cache path this dependencies =
     (case dependencies of
        None \<Rightarrow> (None, this, [])
      | Some deps \<Rightarrow>
          let dependencyNames = Object_keys deps in
          if length dependencyNames = 0 then (None, this, [])
          else
            (case foldl (addDependencies_each cache path this) ([], [], []) dependencyNames of
               (packages, missingDependencies, searches) \<Rightarrow>
                 (Some packages,
                  (if length missingDependencies > 0
                   then addError this ERROR_DEPENDENCIES_MISSING missingDependencies
                   else this),
                  searches)))"

text \<open>\<open>isAddon()\<close>: \<open>indexOf\<close> compares with \<open>===\<close>, so only the string itself is found.\<close>

definition isAddon :: "package_info \<Rightarrow> bool" where
  "isAddon this =
     (case pkg_keywords (pkg this) of
        JArr ks \<Rightarrow> JStr ''ember-addon'' \<in> set ks
      | _ \<Rightarrow> False)"

text \<open>
  \<open>addPackages(addonPackageList, packageInfoList, excludeFn)\<close>. The second argument is
  absent, an array, or a map from name to node; the third is optional. The result is
  \<open>addonPackageList\<close> after the pushes.
\<close>

datatype packageInfoList = PkgArray "package_info list" | PkgMap "package_info obj"

definition addPackages ::
  "package_info list \<Rightarrow> packageInfoList option \<Rightarrow> (package_info \<Rightarrow> bool) option \<Rightarrow>
     package_info list" where
  "addPackages addonPackageList packageInfoList excludeFn =
     (case packageInfoList of
        None \<Rightarrow> addonPackageList
      | Some (PkgArray l) \<Rightarrow>
          (let l' = (case excludeFn of
                       Some f \<Rightarrow> filter (\<lambda>pkgInfo. \<not> f pkgInfo) l
                     | None \<Rightarrow> l)
           in foldl (\<lambda>acc pkgInfo. acc @ [pkgInfo]) addonPackageList l')
      | Some (PkgMap m) \<Rightarrow>
          foldl (\<lambda>acc nm.
                   (case obj_get m nm of
                      None \<Rightarrow> acc
                    | Some pkgInfo \<Rightarrow>
                        (if (case excludeFn of None \<Rightarrow> True | Some f \<Rightarrow> \<not> f pkgInfo)
                         then acc @ [pkgInfo] else acc)))
                addonPackageList (Object_keys m))"

text \<open>\<open>discoverAddonAddons()\<close>\<close>

definition discoverAddonAddons :: "package_info \<Rightarrow> package_info list" where
  "discoverAddonAddons this =
     (let addonPackageList = [];
          addonPackageList = addPackages addonPackageList
             (map_option PkgMap (dependencyPackages this))
             (Some (\<lambda>pkgInfo. \<not> isAddon pkgInfo \<or> PackageInfo_name pkgInfo = ''ember-cli''));
          addonPackageList = addPackages addonPackageList
             (map_option PkgArray (inRepoAddons this)) None
      in addonPackageList)"

text \<open>
  \<open>discoverProjectAddons()\<close>. On a node whose \<open>project\<close> is not set, the call
  \<open>project.isEmberCLIAddon()\<close> raises a TypeError.
\<close>

definition discoverProjectAddons :: "package_info \<Rightarrow> error + package_info list" where
  "discoverProjectAddons this =
     (case project this of
        None \<Rightarrow> Inl TypeError
      | Some proj \<Rightarrow>
          (let addonPackageList = [];
               addonPackageList = addPackages addonPackageList
                  (if isEmberCLIAddon proj then Some (PkgArray [this]) else None) None;
               addonPackageList = addPackages addonPackageList
                  (case cliInfo this of
                     Some cli \<Rightarrow> map_option PkgArray (inRepoAddons cli)
                   | None \<Rightarrow> None) None;
               addonPackageList = addPackages addonPackageList
                  (map_option PkgArray (internalAddons this)) None;
               addonPackageList = addPackages addonPackageList
                  (map_option PkgMap (dependencyPackages this))
                  (Some (\<lambda>pkgInfo. \<not> isAddon pkgInfo));
               addonPackageList = addPackages addonPackageList
                  (map_option PkgMap (devDependencyPackages this))
                  (Some (\<lambda>pkgInfo. \<not> isAddon pkgInfo));
               addonPackageList = addPackages addonPackageList
                  (map_option PkgArray (inRepoAddons this)) None
           in Inr addonPackageList))"

text \<open>
  \<open>getValidPackages\<close>, \<open>getInvalidPackages\<close>, \<open>generateAddonPackages\<close>. The first two
  and \<open>addPackages\<close> never read \<open>this\<close>; \<open>generateAddonPackages\<close> keeps it as the
  owning node of the map.
\<close>

definition getValidPackages :: "package_info list \<Rightarrow> package_info list" where
  "getValidPackages addonPackageList = filter (\<lambda>pkgInfo. valid pkgInfo) addonPackageList"

definition getInvalidPackages :: "package_info list \<Rightarrow> package_info list" where
  "getInvalidPackages addonPackageList = filter (\<lambda>pkgInfo. \<not> valid pkgInfo) addonPackageList"

definition addonInfoOf :: "package_info \<Rightarrow> addon_info" where
  "addonInfoOf pkgInfo = AddonInfo (PackageInfo_name pkgInfo) (realPath pkgInfo) (pkg pkgInfo)"

definition generateAddonPackages_each ::
  "(addon_info \<Rightarrow> bool) option \<Rightarrow> addon_info obj \<Rightarrow> package_info \<Rightarrow> addon_info obj" where
  "generateAddonPackages_each excludeFn packageMap pkgInfo =
     (let addonInfo = addonInfoOf pkgInfo
      in if (case excludeFn of None \<Rightarrow> True | Some f \<Rightarrow> \<not> f addonInfo)
         then obj_set packageMap (PackageInfo_name pkgInfo) addonInfo
         else packageMap)"

definition generateAddonPackages ::
  "package_info \<Rightarrow> package_info list \<Rightarrow> (addon_info \<Rightarrow> bool) option \<Rightarrow> addon_info obj" where
  "generateAddonPackages this addonPackageList excludeFn =
     (let validPackages = getValidPackages addonPackageList
      in foldl (generateAddonPackages_each excludeFn) [] validPackages)"

text \<open>
  \<open>dumpInvalidAddonPackages(addonPackageList)\<close>: the node after the call and the lines
  handed to \<open>ui.writeWarnLine\<close>, in order.
\<close>

definition set_hasDumpedInvalidAddonPackages :: "package_info \<Rightarrow> bool \<Rightarrow> package_info" where
  "set_hasDumpedInvalidAddonPackages this b =
     (case this of PackageInfo p rp errs ira ia cli deps devs nm v dumped pr \<Rightarrow>
        PackageInfo p rp errs ira ia cli deps devs nm v b pr)"

definition warnHeader :: "package_info \<Rightarrow> string" where
  "warnHeader this =
     (let typeName = (case project this of Some _ \<Rightarrow> ''project'' | None \<Rightarrow> ''addon'')
      in ''For '' @ typeName @ '' at path '' @ realPath this @ '':'')"

definition warnLine :: "path_module \<Rightarrow> package_info \<Rightarrow> package_info \<Rightarrow> string" where
  "warnLine path this packageInfo =
     (let relativePath = relative path (realPath this) (realPath packageInfo)
      in ''   Excluding invalid/malformed/missing addon at relative path '' @
         [CHR 0x27] @ relativePath @ [CHR 0x27])"

definition dumpInvalidAddonPackages ::
  "cache \<Rightarrow> path_module \<Rightarrow> package_info \<Rightarrow> package_info list \<Rightarrow> package_info \<times> string list" where
  "dumpInvalidAddonPackages cache path this addonPackageList =
     (if hasDumpedInvalidAddonPackages this then (this, [])
      else
        (let this' = set_hasDumpedInvalidAddonPackages this True;
             invalidPackages = getInvalidPackages addonPackageList
         in if length invalidPackages > 0 \<and>
               (case ui cache of Some u \<Rightarrow> writeWarnLine u | None \<Rightarrow> False)
            then (this', warnHeader this # map (warnLine path this) invalidPackages)
            else (this', [])))"

text \<open>
  The constructor: \<open>new PackageInfo(pkgObj, realPath, cache)\<close>. \<open>project\<close> is not set by
  it.
\<close>

definition new_PackageInfo :: "manifest \<Rightarrow> string \<Rightarrow> package_info" where
  "new_PackageInfo pkgObj rp =
     PackageInfo pkgObj rp [] None None None None None None True False None"

section \<open>A small project used to run the methods\<close>

text \<open>
  A project at \<open>/proj\<close> with two installed addons that share the name \<open>a\<close>, a
  dependency \<open>b\<close> that is no addon, the host tool \<open>ember-cli\<close>, and an in-repo addon
  \<open>c\<close> marked invalid. The path functions and the cache are stand-ins: \<open>dirname\<close>
  answers \<open>/\<close>, \<open>relative\<close> cuts the owner's path and the separator off the front.
\<close>

definition addon_a :: package_info where
  "addon_a = new_PackageInfo
     \<lparr>pkg_name = ''a'', pkg_keywords = JArr [JStr ''x'', JStr ''ember-addon'']\<rparr>
     ''/proj/node_modules/a''"

definition addon_a_nested :: package_info where
  "addon_a_nested = new_PackageInfo
     \<lparr>pkg_name = ''a'', pkg_keywords = JArr [JStr ''ember-addon'']\<rparr>
     ''/proj/node_modules/b/node_modules/a''"

definition plain_b :: package_info where
  "plain_b = new_PackageInfo
     \<lparr>pkg_name = ''b'', pkg_keywords = JStr ''ember-addon''\<rparr>
     ''/proj/node_modules/b''"

definition host_tool :: package_info where
  "host_tool = new_PackageInfo
     \<lparr>pkg_name = ''ember-cli'', pkg_keywords = JArr [JStr ''ember-addon'']\<rparr>
     ''/proj/node_modules/ember-cli''"

definition broken_c :: package_info where
  "broken_c =
     PackageInfo \<lparr>pkg_name = ''c'', pkg_keywords = JArr [JStr ''ember-addon'']\<rparr>
       ''/proj/lib/c'' [] None None None None None None False False None"

definition stub_path :: path_module where
  "stub_path =
     \<lparr>dirname = (\<lambda>p. ''/''),
      relative = (\<lambda>from to. drop (Suc (length from)) to)\<rparr>"

definition stub_cache :: cache where
  "stub_cache =
     \<lparr>ui = Some \<lparr>writeWarnLine = True\<rparr>,
      findPackage = (\<lambda>nm dir. if nm = ''a'' then Some addon_a
                               else if nm = ''b'' then Some plain_b
                               else if nm = ''alias'' then Some addon_a
                               else None)\<rparr>"

definition silent_cache :: cache where
  "silent_cache = \<lparr>ui = None, findPackage = (\<lambda>nm dir. None)\<rparr>"

definition addon_b_node :: package_info where
  "addon_b_node =
     PackageInfo \<lparr>pkg_name = ''b'', pkg_keywords = JArr [JStr ''ember-addon'']\<rparr>
       ''/proj/node_modules/b'' [] (Some [broken_c]) None None
       (Some [(''a'', addon_a_nested), (''ember-cli'', host_tool), (''b'', plain_b)])
       (Some [(''a'', addon_a)])
       (Some (\<lambda>nm. if nm = ''a'' then Some addon_a_nested else None))
       True False None"

definition addon_b_sibling :: package_info where
  "addon_b_sibling =
     PackageInfo \<lparr>pkg_name = ''b'', pkg_keywords = JArr [JStr ''ember-addon'']\<rparr>
       ''/proj/node_modules/b'' [] (Some [broken_c]) (Some [addon_a]) (Some host_tool)
       (Some [(''a'', addon_a_nested), (''ember-cli'', host_tool), (''b'', plain_b)])
       None None False True None"

definition cli_node :: package_info where
  "cli_node =
     PackageInfo \<lparr>pkg_name = ''ember-cli'', pkg_keywords = JArr [JStr ''ember-addon'']\<rparr>
       ''/proj/node_modules/ember-cli'' [] (Some [addon_a_nested]) None None None None None
       True False None"

definition app_node :: package_info where
  "app_node =
     PackageInfo \<lparr>pkg_name = ''app'', pkg_keywords = JArr [JStr ''ember-addon'']\<rparr>
       ''/proj'' [] (Some [broken_c]) (Some [host_tool]) (Some cli_node)
       (Some [(''a'', addon_a), (''b'', plain_b)])
       (Some [(''a2'', addon_a_nested)])
       None True False (Some \<lparr>isEmberCLIAddon = True\<rparr>)"

section \<open>Properties\<close>

subsection \<open>Objects and loops\<close>

lemma obj_set_map_of: "map_of (obj_set ob k v) = (map_of ob)(k \<mapsto> v)"
  by (induction ob) (auto simp: fun_eq_iff)

lemma obj_set_fresh: "k \<notin> fst ` set ob \<Longrightarrow> obj_set ob k v = ob @ [(k, v)]"
  by (induction ob) auto

lemma obj_set_keys: "fst ` set (obj_set ob k v) = insert k (fst ` set ob)"
  by (induction ob) auto

lemma push_all: "foldl (\<lambda>acc x. acc @ [x]) acc xs = acc @ xs"
  by (induction xs arbitrary: acc) auto

lemma push_entries:
  "\<forall>e \<in> set es. map_of m (fst e) = Some (snd e) \<Longrightarrow>
   foldl (\<lambda>acc nm. (case map_of m nm of None \<Rightarrow> acc
                     | Some x \<Rightarrow> (if keep x then acc @ [x] else acc))) acc (map fst es)
     = acc @ filter keep (map snd es)"
  by (induction es arbitrary: acc) auto

lemma addPackages_None: "addPackages acc None ex = acc"
  by (simp add: addPackages_def)

lemma addPackages_Array: "addPackages acc (Some (PkgArray l)) None = acc @ l"
  by (simp add: addPackages_def push_all)

lemma addPackages_Map:
  assumes "wf_obj m"
  shows "addPackages acc (Some (PkgMap m)) (Some f) = acc @ filter (\<lambda>p. \<not> f p) (map snd m)"
proof -
  have "\<forall>e \<in> set m. map_of m (fst e) = Some (snd e)"
    using assms by (auto simp: wf_obj_def)
  then show ?thesis
    by (simp add: addPackages_def Object_keys_def obj_get_def push_entries)
qed

lemma each_loop:
  "foldl (addDependencies_each cache path this) (P, M, S) names =
     (foldl (\<lambda>P k. case fst (findDependencyPackage cache path this k) of
                      Some p \<Rightarrow> obj_set P k p | None \<Rightarrow> P) P names,
      M @ filter (\<lambda>k. fst (findDependencyPackage cache path this k) = None) names,
      S @ concat (map (\<lambda>k. snd (findDependencyPackage cache path this k)) names))"
  by (induction names arbitrary: P M S)
     (auto simp: addDependencies_each_def split: prod.splits option.splits)

lemma set_loop_map_of:
  "map_of (foldl (\<lambda>P k. case r k of Some p \<Rightarrow> obj_set P k p | None \<Rightarrow> P) P names) k =
     (if k \<in> set names \<and> r k \<noteq> None then r k else map_of P k)"
  by (induction names arbitrary: P) (auto simp: obj_set_map_of split: option.splits)

lemma set_loop_distinct:
  "distinct names \<Longrightarrow> set names \<inter> fst ` set P = {} \<Longrightarrow>
   foldl (\<lambda>P k. case r k of Some p \<Rightarrow> obj_set P k p | None \<Rightarrow> P) P names =
     P @ List.map_filter (\<lambda>k. map_option (Pair k) (r k)) names"
proof (induction names arbitrary: P)
  case Nil
  then show ?case by simp
next
  case (Cons k ks)
  show ?case
  proof (cases "r k")
    case None
    with Cons show ?thesis by simp
  next
    case (Some p)
    have fresh: "k \<notin> fst ` set P" using Cons.prems by auto
    have "set ks \<inter> fst ` set (obj_set P k p) = {}"
      using Cons.prems by (auto simp: obj_set_keys)
    with Cons Some fresh show ?thesis
      by (simp add: obj_set_fresh)
  qed
qed


lemma set_loop_keys:
  "fst ` set (foldl (\<lambda>P k. case r k of Some p \<Rightarrow> obj_set P k p | None \<Rightarrow> P) P names) =
     fst ` set P \<union> {k \<in> set names. r k \<noteq> None}"
  by (induction names arbitrary: P) (auto simp: obj_set_keys split: option.splits)

lemma find_calls:
  "snd (findDependencyPackage cache path this k) = [] \<or>
   snd (findDependencyPackage cache path this k) = [(k, dirname path (realPath this))]"
  by (auto simp: findDependencyPackage_def split: option.splits)

lemma find_index_hit:
  "nodeModules this = Some idx \<Longrightarrow> idx k = Some p \<Longrightarrow>
   findDependencyPackage cache path this k = (Some p, [])"
  by (simp add: findDependencyPackage_def)

lemma addDependencies_nonempty:
  "deps \<noteq> [] \<Longrightarrow>
   addDependencies cache path this (Some deps) =
     (Some (foldl (\<lambda>P k. case fst (findDependencyPackage cache path this k) of
                      Some p \<Rightarrow> obj_set P k p | None \<Rightarrow> P) [] (Object_keys deps)),
      (if filter (\<lambda>k. fst (findDependencyPackage cache path this k) = None) (Object_keys deps) \<noteq> []
       then addError this ERROR_DEPENDENCIES_MISSING
              (filter (\<lambda>k. fst (findDependencyPackage cache path this k) = None) (Object_keys deps))
       else this),
      concat (map (\<lambda>k. snd (findDependencyPackage cache path this k)) (Object_keys deps)))"
  by (simp add: addDependencies_def each_loop Object_keys_def Let_def)

lemma addError_fields:
  "errors (addError this t d) = errors this @ [(t, d)]"
  "pkg (addError this t d) = pkg this"
  "realPath (addError this t d) = realPath this"
  "valid (addError this t d) = valid this"
  "inRepoAddons (addError this t d) = inRepoAddons this"
  "internalAddons (addError this t d) = internalAddons this"
  "cliInfo (addError this t d) = cliInfo this"
  "dependencyPackages (addError this t d) = dependencyPackages this"
  "devDependencyPackages (addError this t d) = devDependencyPackages this"
  "nodeModules (addError this t d) = nodeModules this"
  "hasDumpedInvalidAddonPackages (addError this t d) = hasDumpedInvalidAddonPackages this"
  "project (addError this t d) = project this"
  by (cases this; simp add: addError_def ErrorList_addError_def)+

lemma set_loop_Object_keys:
  "set (Object_keys (foldl (\<lambda>P k. case r k of Some p \<Rightarrow> obj_set P k p | None \<Rightarrow> P) [] names)) =
     {k \<in> set names. r k \<noteq> None}"
  using set_loop_keys[of r "[]" names] by (simp add: Object_keys_def)

lemma set_loop_obj_get:
  "obj_get (foldl (\<lambda>P k. case r k of Some p \<Rightarrow> obj_set P k p | None \<Rightarrow> P) [] names) k =
     (if k \<in> set names then r k else None)"
  by (simp add: obj_get_def set_loop_map_of)

text \<open>
  C2: for a non-empty dependency spec in which some declared name fails to resolve,
  \<open>addDependencies\<close> returns a mapping (it raises nothing) and adds exactly one entry to
  the node's error list, of kind "dependencies missing", whose data are exactly the
  declared names that failed, in declaration order. The node's \<open>valid\<close> flag is unchanged.
  The keys of the returned mapping are exactly the declared names that resolved, and each
  is mapped to the package its own lookup found.
\<close>

theorem addDependencies_some_missing:
  assumes "deps \<noteq> []"
      and "\<exists>k \<in> set (Object_keys deps). fst (findDependencyPackage cache path this k) = None"
  shows "\<exists>packages this' searches.
           addDependencies cache path this (Some deps) = (Some packages, this', searches) \<and>
           errors this' = errors this @
             [(ERROR_DEPENDENCIES_MISSING,
               filter (\<lambda>k. fst (findDependencyPackage cache path this k) = None) (Object_keys deps))] \<and>
           valid this' = valid this \<and>
           set (Object_keys packages) =
             {k \<in> set (Object_keys deps). fst (findDependencyPackage cache path this k) \<noteq> None} \<and>
           (\<forall>k. obj_get packages k =
              (if k \<in> set (Object_keys deps) then fst (findDependencyPackage cache path this k)
               else None))"
proof -
  let ?r = "\<lambda>k. fst (findDependencyPackage cache path this k)"
  let ?P = "foldl (\<lambda>P k. case ?r k of Some p \<Rightarrow> obj_set P k p | None \<Rightarrow> P) [] (Object_keys deps)"
  let ?M = "filter (\<lambda>k. ?r k = None) (Object_keys deps)"
  let ?this' = "addError this ERROR_DEPENDENCIES_MISSING ?M"
  have miss: "?M \<noteq> []"
    using assms(2) by (auto simp: filter_empty_conv)
  have run: "addDependencies cache path this (Some deps) =
      (Some ?P, ?this',
       concat (map (\<lambda>k. snd (findDependencyPackage cache path this k)) (Object_keys deps)))"
    using assms(1) miss by (simp add: addDependencies_nonempty)
  have errs: "errors ?this' = errors this @ [(ERROR_DEPENDENCIES_MISSING, ?M)]"
    by (rule addError_fields)
  have val: "valid ?this' = valid this"
    by (rule addError_fields)
  have keys: "set (Object_keys ?P) = {k \<in> set (Object_keys deps). ?r k \<noteq> None}"
    by (rule set_loop_Object_keys)
  have look: "\<forall>k. obj_get ?P k = (if k \<in> set (Object_keys deps) then ?r k else None)"
    by (simp add: set_loop_obj_get)
  from run errs val keys look show ?thesis by blast
qed

theorem addDependencies_some_missing_witness:
  "\<exists>packages this' searches.
     addDependencies stub_cache stub_path app_node (Some [(''a'', ''^1.0.0''), (''ghost'', ''*'')]) =
       (Some packages, this', searches) \<and>
     errors this' = [(ERROR_DEPENDENCIES_MISSING, [''ghost''])] \<and>
     valid this' \<and>
     set (Object_keys packages) = {''a''} \<and>
     obj_get packages ''a'' = Some addon_a \<and>
     obj_get packages ''ghost'' = None"
proof -
  let ?D = "[(''a'', ''^1.0.0''), (''ghost'', ''*'')]"
  have h1: "?D \<noteq> []" by simp
  have h2: "\<exists>k \<in> set (Object_keys ?D).
      fst (findDependencyPackage stub_cache stub_path app_node k) = None"
    by (simp add: Object_keys_def findDependencyPackage_def stub_cache_def app_node_def)
  from addDependencies_some_missing[OF h1 h2]
  obtain packages this' searches where
    run: "addDependencies stub_cache stub_path app_node (Some ?D) = (Some packages, this', searches)"
    and errs: "errors this' = errors app_node @
         [(ERROR_DEPENDENCIES_MISSING,
           filter (\<lambda>k. fst (findDependencyPackage stub_cache stub_path app_node k) = None)
             (Object_keys ?D))]"
    and val: "valid this' = valid app_node"
    and keys: "set (Object_keys packages) =
         {k \<in> set (Object_keys ?D).
            fst (findDependencyPackage stub_cache stub_path app_node k) \<noteq> None}"
    and look: "\<forall>k. obj_get packages k =
         (if k \<in> set (Object_keys ?D)
          then fst (findDependencyPackage stub_cache stub_path app_node k) else None)"
    by blast
  have e: "errors this' = [(ERROR_DEPENDENCIES_MISSING, [''ghost''])]"
    unfolding errs
    by (simp add: Object_keys_def findDependencyPackage_def stub_cache_def app_node_def)
  have v: "valid this'"
    unfolding val by (simp add: app_node_def)
  have k: "set (Object_keys packages) = {''a''}"
    unfolding keys
    by (auto simp: Object_keys_def findDependencyPackage_def stub_cache_def app_node_def)
  have g: "obj_get packages ''a'' = Some addon_a" "obj_get packages ''ghost'' = None"
    using look
    by (simp_all add: Object_keys_def findDependencyPackage_def stub_cache_def app_node_def)
  from run e v k g show ?thesis by blast
qed

lemma set_loop_all_resolved:
  assumes "distinct names" and "\<forall>k \<in> set names. r k \<noteq> None"
  shows "foldl (\<lambda>P k. case r k of Some p \<Rightarrow> obj_set P k p | None \<Rightarrow> P) [] names =
           map (\<lambda>k. (k, the (r k))) names"
proof -
  have "List.map_filter (\<lambda>k. map_option (Pair k) (r k)) names = map (\<lambda>k. (k, the (r k))) names"
    using assms(2) by (induction names) auto
  then show ?thesis
    using set_loop_distinct[of names "[]" r] assms(1) by simp
qed

text \<open>
  C8: for a non-empty dependency spec in which every declared name resolves, the returned
  mapping has as many entries as the spec, its keys are the declared names in declaration
  order (whatever the resolved packages call themselves), each mapped to the package found
  for it, and the node is returned as it was: no error is recorded.
\<close>

theorem addDependencies_all_resolved:
  assumes "deps \<noteq> []"
      and "wf_obj deps"
      and "\<forall>k \<in> set (Object_keys deps). fst (findDependencyPackage cache path this k) \<noteq> None"
  shows "\<exists>packages searches.
           addDependencies cache path this (Some deps) = (Some packages, this, searches) \<and>
           length packages = length deps \<and>
           Object_keys packages = Object_keys deps \<and>
           (\<forall>k \<in> set (Object_keys deps).
              obj_get packages k = fst (findDependencyPackage cache path this k))"
proof -
  let ?r = "\<lambda>k. fst (findDependencyPackage cache path this k)"
  let ?P = "foldl (\<lambda>P k. case ?r k of Some p \<Rightarrow> obj_set P k p | None \<Rightarrow> P) [] (Object_keys deps)"
  have nomiss: "filter (\<lambda>k. ?r k = None) (Object_keys deps) = []"
    using assms(3) by (auto simp: filter_empty_conv)
  have run: "addDependencies cache path this (Some deps) =
      (Some ?P, this,
       concat (map (\<lambda>k. snd (findDependencyPackage cache path this k)) (Object_keys deps)))"
    using assms(1) nomiss by (simp add: addDependencies_nonempty)
  have dist: "distinct (Object_keys deps)"
    using assms(2) by (simp add: wf_obj_def Object_keys_def)
  have shape: "?P = map (\<lambda>k. (k, the (?r k))) (Object_keys deps)"
    using dist assms(3) by (rule set_loop_all_resolved)
  have len: "length ?P = length deps"
    unfolding shape by (simp add: Object_keys_def)
  have keys: "Object_keys ?P = Object_keys deps"
    unfolding shape by (simp add: Object_keys_def comp_def)
  have look: "\<forall>k \<in> set (Object_keys deps). obj_get ?P k = ?r k"
    by (simp add: set_loop_obj_get)
  from run len keys look show ?thesis by blast
qed

theorem addDependencies_all_resolved_witness:
  "\<exists>packages searches.
     addDependencies stub_cache stub_path app_node (Some [(''alias'', ''^1.0.0''), (''b'', ''*'')]) =
       (Some packages, app_node, searches) \<and>
     length packages = 2 \<and>
     Object_keys packages = [''alias'', ''b''] \<and>
     obj_get packages ''alias'' = Some addon_a \<and>
     PackageInfo_name addon_a = ''a'' \<and>
     obj_get packages ''b'' = Some plain_b"
proof -
  let ?D = "[(''alias'', ''^1.0.0''), (''b'', ''*'')]"
  have h1: "?D \<noteq> []" by simp
  have h2: "wf_obj ?D" by (simp add: wf_obj_def)
  have h3: "\<forall>k \<in> set (Object_keys ?D).
      fst (findDependencyPackage stub_cache stub_path app_node k) \<noteq> None"
    by (simp add: Object_keys_def findDependencyPackage_def stub_cache_def app_node_def)
  from addDependencies_all_resolved[OF h1 h2 h3]
  obtain packages searches where
    run: "addDependencies stub_cache stub_path app_node (Some ?D) = (Some packages, app_node, searches)"
    and len: "length packages = length ?D"
    and keys: "Object_keys packages = Object_keys ?D"
    and look: "\<forall>k \<in> set (Object_keys ?D).
         obj_get packages k = fst (findDependencyPackage stub_cache stub_path app_node k)"
    by blast
  have l: "length packages = 2"
    using len by simp
  have k: "Object_keys packages = [''alias'', ''b'']"
    unfolding keys by (simp add: Object_keys_def)
  have g: "obj_get packages ''alias'' = Some addon_a" "obj_get packages ''b'' = Some plain_b"
    using look
    by (simp_all add: Object_keys_def findDependencyPackage_def stub_cache_def app_node_def)
  have n: "PackageInfo_name addon_a = ''a''"
    by (simp add: PackageInfo_name_def addon_a_def new_PackageInfo_def)
  from run l k g n show ?thesis by blast
qed

text \<open>
  C10: for a non-empty dependency spec in which no declared name resolves,
  \<open>addDependencies\<close> returns the empty mapping and records the error with all declared
  names; the result differs from the null returned for an absent or an empty spec.
\<close>

theorem addDependencies_none_resolved:
  assumes "deps \<noteq> []"
      and "\<forall>k \<in> set (Object_keys deps). fst (findDependencyPackage cache path this k) = None"
  shows "\<exists>this' searches.
           addDependencies cache path this (Some deps) = (Some [], this', searches) \<and>
           errors this' = errors this @ [(ERROR_DEPENDENCIES_MISSING, Object_keys deps)] \<and>
           fst (addDependencies cache path this (Some deps)) \<noteq>
             fst (addDependencies cache path this None) \<and>
           fst (addDependencies cache path this (Some deps)) \<noteq>
             fst (addDependencies cache path this (Some []))"
proof -
  let ?r = "\<lambda>k. fst (findDependencyPackage cache path this k)"
  let ?P = "foldl (\<lambda>P k. case ?r k of Some p \<Rightarrow> obj_set P k p | None \<Rightarrow> P) [] (Object_keys deps)"
  have allmiss: "filter (\<lambda>k. ?r k = None) (Object_keys deps) = Object_keys deps"
    using assms(2) by (simp add: filter_id_conv)
  have ne: "Object_keys deps \<noteq> []"
    using assms(1) by (simp add: Object_keys_def)
  have "set (Object_keys ?P) = {}"
    using assms(2) by (simp add: set_loop_Object_keys)
  then have empty: "?P = []"
    by (simp add: Object_keys_def)
  have run: "addDependencies cache path this (Some deps) =
      (Some [], addError this ERROR_DEPENDENCIES_MISSING (Object_keys deps),
       concat (map (\<lambda>k. snd (findDependencyPackage cache path this k)) (Object_keys deps)))"
    using assms(1) ne by (simp add: addDependencies_nonempty allmiss empty)
  have errs: "errors (addError this ERROR_DEPENDENCIES_MISSING (Object_keys deps)) =
      errors this @ [(ERROR_DEPENDENCIES_MISSING, Object_keys deps)]"
    by (rule addError_fields)
  have nulls: "fst (addDependencies cache path this None) = None"
      "fst (addDependencies cache path this (Some [])) = None"
    by (simp_all add: addDependencies_def Object_keys_def)
  from run errs nulls show ?thesis by simp
qed

theorem addDependencies_none_resolved_witness:
  "\<exists>this' searches.
     addDependencies silent_cache stub_path app_node (Some [(''a'', ''*''), (''b'', ''*'')]) =
       (Some [], this', searches) \<and>
     errors this' = [(ERROR_DEPENDENCIES_MISSING, [''a'', ''b''])] \<and>
     fst (addDependencies silent_cache stub_path app_node None) = None"
proof -
  let ?D = "[(''a'', ''*''), (''b'', ''*'')]"
  have h1: "?D \<noteq> []" by simp
  have h2: "\<forall>k \<in> set (Object_keys ?D).
      fst (findDependencyPackage silent_cache stub_path app_node k) = None"
    by (simp add: Object_keys_def findDependencyPackage_def silent_cache_def app_node_def)
  from addDependencies_none_resolved[OF h1 h2]
  obtain this' searches where
    run: "addDependencies silent_cache stub_path app_node (Some ?D) = (Some [], this', searches)"
    and errs: "errors this' = errors app_node @ [(ERROR_DEPENDENCIES_MISSING, Object_keys ?D)]"
    and differs: "fst (addDependencies silent_cache stub_path app_node (Some ?D)) \<noteq>
         fst (addDependencies silent_cache stub_path app_node None)"
    by blast
  have e: "errors this' = [(ERROR_DEPENDENCIES_MISSING, [''a'', ''b''])]"
    unfolding errs by (simp add: Object_keys_def app_node_def)
  have n: "fst (addDependencies silent_cache stub_path app_node None) = None"
    using differs run by (cases "fst (addDependencies silent_cache stub_path app_node None)")
      (simp_all add: addDependencies_def)
  from run e n show ?thesis by blast
qed

text \<open>
  C6: when the node has a \<open>nodeModules\<close> index and the index resolves a declared name,
  the returned mapping holds the index's package under that name, and
  \<open>cache._findPackage\<close> is never called with that name, whatever it would have answered.
\<close>

theorem addDependencies_index_hit:
  assumes "nodeModules this = Some idx"
      and "idx k = Some p"
      and "k \<in> set (Object_keys deps)"
  shows "\<exists>packages this' searches.
           addDependencies cache path this (Some deps) = (Some packages, this', searches) \<and>
           obj_get packages k = Some p \<and>
           k \<notin> fst ` set searches"
proof -
  let ?f = "findDependencyPackage cache path this"
  let ?P = "foldl (\<lambda>P k. case fst (?f k) of Some p \<Rightarrow> obj_set P k p | None \<Rightarrow> P) [] (Object_keys deps)"
  let ?S = "concat (map (\<lambda>k. snd (?f k)) (Object_keys deps))"
  have ne: "deps \<noteq> []"
    using assms(3) by (auto simp: Object_keys_def)
  have hit: "?f k = (Some p, [])"
    using assms(1,2) by (rule find_index_hit)
  have run: "\<exists>this'. addDependencies cache path this (Some deps) = (Some ?P, this', ?S)"
    using ne by (simp add: addDependencies_nonempty)
  have look: "obj_get ?P k = Some p"
    using assms(3) hit by (simp add: set_loop_obj_get)
  have "k \<notin> fst ` set (snd (?f k'))" for k'
    using find_calls[of cache path this k'] hit by (cases "k' = k") auto
  then have quiet: "k \<notin> fst ` set ?S"
    by auto
  from run look quiet show ?thesis by blast
qed

theorem addDependencies_index_hit_witness:
  "\<exists>packages this' searches.
     addDependencies stub_cache stub_path addon_b_node (Some [(''a'', ''*''), (''b'', ''*'')]) =
       (Some packages, this', searches) \<and>
     obj_get packages ''a'' = Some addon_a_nested \<and>
     ''a'' \<notin> fst ` set searches \<and>
     findPackage stub_cache ''a'' (dirname stub_path (realPath addon_b_node)) = Some addon_a \<and>
     addon_a \<noteq> addon_a_nested"
proof -
  let ?D = "[(''a'', ''*''), (''b'', ''*'')]"
  let ?idx = "\<lambda>nm. if nm = ''a'' then Some addon_a_nested else None"
  have h1: "nodeModules addon_b_node = Some ?idx"
    by (simp add: addon_b_node_def)
  have h2: "?idx ''a'' = Some addon_a_nested" by simp
  have h3: "''a'' \<in> set (Object_keys ?D)" by (simp add: Object_keys_def)
  from addDependencies_index_hit[OF h1 h2 h3, of stub_cache stub_path]
  obtain packages this' searches where
    run: "addDependencies stub_cache stub_path addon_b_node (Some ?D) = (Some packages, this', searches)"
    and look: "obj_get packages ''a'' = Some addon_a_nested"
    and quiet: "''a'' \<notin> fst ` set searches"
    by blast
  have other: "findPackage stub_cache ''a'' (dirname stub_path (realPath addon_b_node)) = Some addon_a"
    by (simp add: stub_cache_def)
  have diff: "addon_a \<noteq> addon_a_nested"
    by (simp add: addon_a_def addon_a_nested_def new_PackageInfo_def)
  from run look quiet other diff show ?thesis by blast
qed


lemma addPackages_opt_Array:
  "addPackages acc (map_option PkgArray l) None = acc @ (case l of None \<Rightarrow> [] | Some xs \<Rightarrow> xs)"
  by (cases l) (simp_all add: addPackages_None addPackages_Array)

lemma addPackages_opt_Map:
  "(\<forall>m. deps = Some m \<longrightarrow> wf_obj m) \<Longrightarrow>
   addPackages acc (map_option PkgMap deps) (Some f) =
     acc @ (case deps of None \<Rightarrow> [] | Some m \<Rightarrow> filter (\<lambda>p. \<not> f p) (map snd m))"
  by (cases deps) (simp_all add: addPackages_None addPackages_Map)

text \<open>
  C1: on the node of a project, \<open>discoverProjectAddons\<close> returns, in this order: the node
  itself exactly when the project says it is an addon; the in-repo addons of \<open>cliInfo\<close>
  when there is one; the internal addons; the dependency packages that are addons; the
  dev-dependency packages that are addons; the node's in-repo addons. So when the project
  is an addon the node is the first element.
\<close>

theorem discoverProjectAddons_order:
  assumes "project this = Some proj"
      and "\<forall>m. dependencyPackages this = Some m \<longrightarrow> wf_obj m"
      and "\<forall>m. devDependencyPackages this = Some m \<longrightarrow> wf_obj m"
  shows "discoverProjectAddons this =
           Inr ((if isEmberCLIAddon proj then [this] else []) @
                (case cliInfo this of
                   None \<Rightarrow> []
                 | Some cli \<Rightarrow> (case inRepoAddons cli of None \<Rightarrow> [] | Some l \<Rightarrow> l)) @
                (case internalAddons this of None \<Rightarrow> [] | Some l \<Rightarrow> l) @
                (case dependencyPackages this of
                   None \<Rightarrow> [] | Some m \<Rightarrow> filter isAddon (map snd m)) @
                (case devDependencyPackages this of
                   None \<Rightarrow> [] | Some m \<Rightarrow> filter isAddon (map snd m)) @
                (case inRepoAddons this of None \<Rightarrow> [] | Some l \<Rightarrow> l)) \<and>
         (isEmberCLIAddon proj \<longrightarrow>
            (\<exists>rest. discoverProjectAddons this = Inr (this # rest)))"
proof -
  have own: "addPackages [] (if isEmberCLIAddon proj then Some (PkgArray [this]) else None) None =
      (if isEmberCLIAddon proj then [this] else [])"
    by (simp add: addPackages_None addPackages_Array)
  have cli: "addPackages acc
        (case cliInfo this of Some cli \<Rightarrow> map_option PkgArray (inRepoAddons cli) | None \<Rightarrow> None) None =
      acc @ (case cliInfo this of
               None \<Rightarrow> []
             | Some cli \<Rightarrow> (case inRepoAddons cli of None \<Rightarrow> [] | Some l \<Rightarrow> l))" for acc
    by (cases "cliInfo this") (simp_all add: addPackages_None addPackages_opt_Array)
  have main: "discoverProjectAddons this =
           Inr ((if isEmberCLIAddon proj then [this] else []) @
                (case cliInfo this of
                   None \<Rightarrow> []
                 | Some cli \<Rightarrow> (case inRepoAddons cli of None \<Rightarrow> [] | Some l \<Rightarrow> l)) @
                (case internalAddons this of None \<Rightarrow> [] | Some l \<Rightarrow> l) @
                (case dependencyPackages this of
                   None \<Rightarrow> [] | Some m \<Rightarrow> filter isAddon (map snd m)) @
                (case devDependencyPackages this of
                   None \<Rightarrow> [] | Some m \<Rightarrow> filter isAddon (map snd m)) @
                (case inRepoAddons this of None \<Rightarrow> [] | Some l \<Rightarrow> l))"
    unfolding discoverProjectAddons_def Let_def
    by (simp only: assms(1) option.case own cli addPackages_opt_Array
          addPackages_opt_Map[OF assms(2)] addPackages_opt_Map[OF assms(3)] not_not append_assoc)
  show ?thesis
    unfolding main by simp
qed

theorem discoverProjectAddons_order_witness:
  "discoverProjectAddons app_node =
     Inr [app_node, addon_a_nested, host_tool, addon_a, addon_a_nested, broken_c] \<and>
   \<not> isAddon plain_b"
proof -
  have h1: "project app_node = Some \<lparr>isEmberCLIAddon = True\<rparr>"
    by (simp add: app_node_def)
  have h2: "\<forall>m. dependencyPackages app_node = Some m \<longrightarrow> wf_obj m"
    by (simp add: app_node_def wf_obj_def)
  have h3: "\<forall>m. devDependencyPackages app_node = Some m \<longrightarrow> wf_obj m"
    by (simp add: app_node_def wf_obj_def)
  have a: "isAddon addon_a" "isAddon addon_a_nested" "\<not> isAddon plain_b"
    by (simp_all add: isAddon_def addon_a_def addon_a_nested_def plain_b_def new_PackageInfo_def)
  have f: "cliInfo app_node = Some cli_node" "inRepoAddons cli_node = Some [addon_a_nested]"
    "internalAddons app_node = Some [host_tool]"
    "dependencyPackages app_node = Some [(''a'', addon_a), (''b'', plain_b)]"
    "devDependencyPackages app_node = Some [(''a2'', addon_a_nested)]"
    "inRepoAddons app_node = Some [broken_c]"
    by (simp_all add: app_node_def cli_node_def)
  show ?thesis
    using discoverProjectAddons_order[OF h1 h2 h3] a by (simp add: f)
qed

text \<open>
  C5: \<open>discoverAddonAddons\<close> returns exactly the dependency packages that are addons and
  are not named \<open>ember-cli\<close>, followed by all in-repo addons, unfiltered. The result
  depends on no other field of the node: in particular the dev dependencies are never
  consulted.
\<close>

theorem discoverAddonAddons_result:
  assumes "\<forall>m. dependencyPackages this = Some m \<longrightarrow> wf_obj m"
  shows "discoverAddonAddons this =
           (case dependencyPackages this of
              None \<Rightarrow> []
            | Some m \<Rightarrow>
                filter (\<lambda>p. isAddon p \<and> PackageInfo_name p \<noteq> ''ember-cli'') (map snd m)) @
           (case inRepoAddons this of None \<Rightarrow> [] | Some l \<Rightarrow> l) \<and>
         (\<forall>other. dependencyPackages other = dependencyPackages this \<and>
                   inRepoAddons other = inRepoAddons this \<longrightarrow>
                   discoverAddonAddons other = discoverAddonAddons this)"
proof -
  have "discoverAddonAddons this =
           (case dependencyPackages this of
              None \<Rightarrow> []
            | Some m \<Rightarrow>
                filter (\<lambda>p. isAddon p \<and> PackageInfo_name p \<noteq> ''ember-cli'') (map snd m)) @
           (case inRepoAddons this of None \<Rightarrow> [] | Some l \<Rightarrow> l)"
  proof -
    have conv: "(\<lambda>p. \<not> (\<not> isAddon p \<or> PackageInfo_name p = ''ember-cli'')) =
        (\<lambda>p. isAddon p \<and> PackageInfo_name p \<noteq> ''ember-cli'')"
      by auto
    show ?thesis
      unfolding discoverAddonAddons_def Let_def
      by (simp only: addPackages_opt_Array addPackages_opt_Map[OF assms] conv append_Nil)
  qed
  moreover have "\<forall>other. dependencyPackages other = dependencyPackages this \<and>
                   inRepoAddons other = inRepoAddons this \<longrightarrow>
                   discoverAddonAddons other = discoverAddonAddons this"
    by (simp add: discoverAddonAddons_def)
  ultimately show ?thesis by blast
qed

theorem discoverAddonAddons_result_witness:
  "discoverAddonAddons addon_b_node = [addon_a_nested, broken_c] \<and>
   discoverAddonAddons addon_b_sibling = [addon_a_nested, broken_c] \<and>
   devDependencyPackages addon_b_node \<noteq> devDependencyPackages addon_b_sibling"
proof -
  have h: "\<forall>m. dependencyPackages addon_b_node = Some m \<longrightarrow> wf_obj m"
    by (simp add: addon_b_node_def wf_obj_def)
  have a: "isAddon addon_a_nested" "\<not> isAddon plain_b" "isAddon host_tool"
    "PackageInfo_name host_tool = ''ember-cli''" "PackageInfo_name addon_a_nested = ''a''"
    by (simp_all add: isAddon_def PackageInfo_name_def addon_a_nested_def plain_b_def host_tool_def
        new_PackageInfo_def)
  have f: "dependencyPackages addon_b_node =
      Some [(''a'', addon_a_nested), (''ember-cli'', host_tool), (''b'', plain_b)]"
    "inRepoAddons addon_b_node = Some [broken_c]"
    "dependencyPackages addon_b_sibling = dependencyPackages addon_b_node"
    "inRepoAddons addon_b_sibling = inRepoAddons addon_b_node"
    "devDependencyPackages addon_b_node \<noteq> devDependencyPackages addon_b_sibling"
    by (simp_all add: addon_b_node_def addon_b_sibling_def)
  from discoverAddonAddons_result[OF h]
  have r: "discoverAddonAddons addon_b_node = [addon_a_nested, broken_c]"
    and same: "discoverAddonAddons addon_b_sibling = discoverAddonAddons addon_b_node"
    using a f by simp_all
  show ?thesis
    using r same f(5) by simp
qed


lemma gen_loop_map_of:
  "map_of (foldl (generateAddonPackages_each ex) M ps) k =
     (case filter (\<lambda>p. (case ex of None \<Rightarrow> True | Some f \<Rightarrow> \<not> f (addonInfoOf p)) \<and>
                       PackageInfo_name p = k) ps of
        [] \<Rightarrow> map_of M k
      | c # cs \<Rightarrow> Some (addonInfoOf (last (c # cs))))"
proof (induction ps rule: rev_induct)
  case Nil
  then show ?case by simp
next
  case (snoc p ps)
  show ?case
    using snoc.IH
    by (cases ex)
       (auto simp: generateAddonPackages_each_def obj_set_map_of Let_def split: list.splits)
qed

lemma obj_set_wf: "wf_obj ob \<Longrightarrow> wf_obj (obj_set ob k v)"
proof (induction ob)
  case Nil
  then show ?case by (simp add: wf_obj_def)
next
  case (Cons e es)
  then have "fst e \<notin> fst ` set es" and "wf_obj (obj_set es k v)"
    by (simp_all add: wf_obj_def)
  then show ?case
    using Cons.prems by (auto simp: wf_obj_def obj_set_keys)
qed

lemma gen_loop_wf: "wf_obj M \<Longrightarrow> wf_obj (foldl (generateAddonPackages_each ex) M ps)"
  by (induction ps arbitrary: M) (auto simp: generateAddonPackages_each_def Let_def obj_set_wf)


text \<open>
  C3: the map returned by \<open>generateAddonPackages\<close> has no key twice; its keys are the
  names of the candidates that are valid and not rejected by the optional exclude
  predicate, which is applied to the addon record built from the candidate. Under each
  name stands the record (name, realPath, manifest) of the last such candidate of that
  name in the list. Every entry comes from a valid candidate, so an invalid one never
  contributes an entry.
\<close>

theorem generateAddonPackages_map:
  "let m = generateAddonPackages this l ex;
       kept = (\<lambda>p. valid p \<and> (case ex of None \<Rightarrow> True | Some f \<Rightarrow> \<not> f (addonInfoOf p)))
   in wf_obj m \<and>
      set (Object_keys m) = PackageInfo_name ` {p \<in> set l. kept p} \<and>
      (\<forall>k. obj_get m k =
         (case filter (\<lambda>p. kept p \<and> PackageInfo_name p = k) l of
            [] \<Rightarrow> None
          | c # cs \<Rightarrow> Some (addonInfoOf (last (c # cs))))) \<and>
      (\<forall>e \<in> set m. \<exists>p \<in> set l. kept p \<and> e = (PackageInfo_name p, addonInfoOf p)) \<and>
      (\<forall>p. addonInfoOf p =
         \<lparr>addon_name = pkg_name (pkg p), addon_path = realPath p, addon_pkg = pkg p\<rparr>)"
proof -
  define m where "m = generateAddonPackages this l ex"
  define ok where "ok = (\<lambda>p. case ex of None \<Rightarrow> True | Some f \<Rightarrow> \<not> f (addonInfoOf p))"
  define kept where "kept = (\<lambda>p. valid p \<and> ok p)"
  have m_fold: "m = foldl (generateAddonPackages_each ex) [] (filter valid l)"
    by (simp add: m_def generateAddonPackages_def getValidPackages_def)
  have flt: "filter (\<lambda>p. ok p \<and> PackageInfo_name p = k) (filter valid l) =
      filter (\<lambda>p. kept p \<and> PackageInfo_name p = k) l" for k
    by (simp add: kept_def conj_ac)
  have look: "map_of m k =
      (case filter (\<lambda>p. kept p \<and> PackageInfo_name p = k) l of
         [] \<Rightarrow> None | c # cs \<Rightarrow> Some (addonInfoOf (last (c # cs))))" for k
    unfolding m_fold gen_loop_map_of flt[symmetric] ok_def by (simp split: list.splits)
  have wf: "wf_obj m"
    unfolding m_fold by (rule gen_loop_wf) (simp add: wf_obj_def)
  have "k \<in> dom (map_of m) \<longleftrightarrow> k \<in> PackageInfo_name ` {p \<in> set l. kept p}" for k
  proof -
    have "k \<in> dom (map_of m) \<longleftrightarrow> filter (\<lambda>p. kept p \<and> PackageInfo_name p = k) l \<noteq> []"
      by (simp add: dom_def look split: list.splits)
    also have "\<dots> \<longleftrightarrow> k \<in> PackageInfo_name ` {p \<in> set l. kept p}"
      by (auto simp: filter_empty_conv)
    finally show ?thesis .
  qed
  then have keys: "set (Object_keys m) = PackageInfo_name ` {p \<in> set l. kept p}"
    by (auto simp: Object_keys_def dom_map_of_conv_image_fst)
  have origin: "\<exists>p \<in> set l. kept p \<and> e = (PackageInfo_name p, addonInfoOf p)" if "e \<in> set m" for e
  proof -
    obtain k a where e: "e = (k, a)" by (cases e)
    have "map_of m k = Some a"
      using wf that e by (simp add: wf_obj_def)
    then obtain c cs where cs: "filter (\<lambda>p. kept p \<and> PackageInfo_name p = k) l = c # cs"
        and a: "a = addonInfoOf (last (c # cs))"
      by (auto simp: look split: list.splits)
    have "last (c # cs) \<in> set (filter (\<lambda>p. kept p \<and> PackageInfo_name p = k) l)"
      unfolding cs by (rule last_in_set) simp
    then show ?thesis
      using e a by auto
  qed
  have shape: "addonInfoOf p =
      \<lparr>addon_name = pkg_name (pkg p), addon_path = realPath p, addon_pkg = pkg p\<rparr>" for p
    by (simp add: addonInfoOf_def AddonInfo_def PackageInfo_name_def)
  show ?thesis
    using wf keys look origin shape
    unfolding Let_def m_def[symmetric] kept_def[symmetric, unfolded ok_def] obj_get_def
    by blast
qed

theorem generateAddonPackages_map_witness:
  "wf_obj (generateAddonPackages app_node [addon_a, broken_c, plain_b, addon_a_nested]
             (Some (\<lambda>r. addon_name r = ''b''))) \<and>
   set (Object_keys (generateAddonPackages app_node [addon_a, broken_c, plain_b, addon_a_nested]
             (Some (\<lambda>r. addon_name r = ''b'')))) = {''a''} \<and>
   obj_get (generateAddonPackages app_node [addon_a, broken_c, plain_b, addon_a_nested]
             (Some (\<lambda>r. addon_name r = ''b''))) ''a'' =
     Some \<lparr>addon_name = ''a'', addon_path = ''/proj/node_modules/b/node_modules/a'',
           addon_pkg = \<lparr>pkg_name = ''a'', pkg_keywords = JArr [JStr ''ember-addon'']\<rparr>\<rparr> \<and>
   obj_get (generateAddonPackages app_node [addon_a, broken_c, plain_b, addon_a_nested]
             (Some (\<lambda>r. addon_name r = ''b''))) ''c'' = None"
proof -
  let ?l = "[addon_a, broken_c, plain_b, addon_a_nested]"
  let ?ex = "Some (\<lambda>r. addon_name r = ''b'')"
  let ?m = "generateAddonPackages app_node ?l ?ex"
  note T = generateAddonPackages_map[of app_node ?l ?ex, unfolded Let_def option.case]
  have v: "valid addon_a" "\<not> valid broken_c" "valid plain_b" "valid addon_a_nested"
    by (simp_all add: addon_a_def broken_c_def plain_b_def addon_a_nested_def new_PackageInfo_def)
  have n: "PackageInfo_name addon_a = ''a''" "PackageInfo_name broken_c = ''c''"
    "PackageInfo_name plain_b = ''b''" "PackageInfo_name addon_a_nested = ''a''"
    by (simp_all add: PackageInfo_name_def addon_a_def broken_c_def plain_b_def
        addon_a_nested_def new_PackageInfo_def)
  have r: "addon_name (addonInfoOf p) = PackageInfo_name p" for p
    by (simp add: addonInfoOf_def AddonInfo_def)
  have wf: "wf_obj ?m"
    by (rule T[THEN conjunct1])
  have keys: "set (Object_keys ?m) = {''a''}"
  proof -
    have "{p \<in> set ?l. valid p \<and> \<not> addon_name (addonInfoOf p) = ''b''} = {addon_a, addon_a_nested}"
      by (auto simp: v n r)
    then show ?thesis
      unfolding T[THEN conjunct2, THEN conjunct1] by (simp add: n)
  qed
  have a: "obj_get ?m ''a'' = Some (addonInfoOf addon_a_nested)"
    unfolding T[THEN conjunct2, THEN conjunct2, THEN conjunct1, rule_format]
    by (simp add: v n r)
  have c: "obj_get ?m ''c'' = None"
    unfolding T[THEN conjunct2, THEN conjunct2, THEN conjunct1, rule_format]
    by (simp add: v n r)
  have rec: "addonInfoOf addon_a_nested =
      \<lparr>addon_name = ''a'', addon_path = ''/proj/node_modules/b/node_modules/a'',
       addon_pkg = \<lparr>pkg_name = ''a'', pkg_keywords = JArr [JStr ''ember-addon'']\<rparr>\<rparr>"
    by (simp add: addonInfoOf_def AddonInfo_def PackageInfo_name_def addon_a_nested_def
        new_PackageInfo_def)
  show ?thesis
    using wf keys a c unfolding rec by blast
qed


lemma set_flag_fields:
  "hasDumpedInvalidAddonPackages (set_hasDumpedInvalidAddonPackages this b) = b"
  "realPath (set_hasDumpedInvalidAddonPackages this b) = realPath this"
  "project (set_hasDumpedInvalidAddonPackages this b) = project this"
  "valid (set_hasDumpedInvalidAddonPackages this b) = valid this"
  "errors (set_hasDumpedInvalidAddonPackages this b) = errors this"
  by (cases this; simp add: set_hasDumpedInvalidAddonPackages_def)+

lemma dump_sets_flag:
  "hasDumpedInvalidAddonPackages (fst (dumpInvalidAddonPackages cache path this l))"
  by (simp add: dumpInvalidAddonPackages_def Let_def set_flag_fields)

lemma dump_after_flag:
  "hasDumpedInvalidAddonPackages this \<Longrightarrow> dumpInvalidAddonPackages cache path this l = (this, [])"
  by (simp add: dumpInvalidAddonPackages_def)

lemma dump_first:
  "\<not> hasDumpedInvalidAddonPackages this \<Longrightarrow>
   snd (dumpInvalidAddonPackages cache path this l) =
     (if getInvalidPackages l \<noteq> [] \<and> (case ui cache of Some u \<Rightarrow> writeWarnLine u | None \<Rightarrow> False)
      then warnHeader this # map (warnLine path this) (getInvalidPackages l)
      else [])"
  by (simp add: dumpInvalidAddonPackages_def Let_def)

text \<open>
  C4: building the addon map and dumping the invalid packages twice, on the same list and
  the same owning node, gives the same map both times, and the second dump writes
  nothing. On a node that has not dumped before, the first dump writes the warning block
  when the list has an invalid candidate and the cache has a warning channel: one header
  line with the owner's role and realPath, then one line per invalid candidate with its
  path relative to the owner.
\<close>

theorem build_twice:
  "let map1 = generateAddonPackages this l ex;
       (this1, out1) = dumpInvalidAddonPackages cache path this l;
       map2 = generateAddonPackages this1 l ex;
       (this2, out2) = dumpInvalidAddonPackages cache path this1 l
   in map2 = map1 \<and> out2 = [] \<and> this2 = this1 \<and>
      (\<not> hasDumpedInvalidAddonPackages this \<longrightarrow>
         out1 =
           (if getInvalidPackages l \<noteq> [] \<and>
               (case ui cache of Some u \<Rightarrow> writeWarnLine u | None \<Rightarrow> False)
            then (''For '' @ (case project this of Some _ \<Rightarrow> ''project'' | None \<Rightarrow> ''addon'') @
                  '' at path '' @ realPath this @ '':'') #
                 map (\<lambda>p. ''   Excluding invalid/malformed/missing addon at relative path '' @
                           [CHR 0x27] @ relative path (realPath this) (realPath p) @ [CHR 0x27])
                     (getInvalidPackages l)
            else []))"
proof -
  obtain this1 out1 where run1: "dumpInvalidAddonPackages cache path this l = (this1, out1)"
    by (cases "dumpInvalidAddonPackages cache path this l")
  have "hasDumpedInvalidAddonPackages this1"
    using dump_sets_flag[of cache path this l] run1 by simp
  then have run2: "dumpInvalidAddonPackages cache path this1 l = (this1, [])"
    by (rule dump_after_flag)
  have same: "generateAddonPackages this1 l ex = generateAddonPackages this l ex"
    by (simp add: generateAddonPackages_def)
  have first: "\<not> hasDumpedInvalidAddonPackages this \<longrightarrow>
      out1 = (if getInvalidPackages l \<noteq> [] \<and>
               (case ui cache of Some u \<Rightarrow> writeWarnLine u | None \<Rightarrow> False)
            then (''For '' @ (case project this of Some _ \<Rightarrow> ''project'' | None \<Rightarrow> ''addon'') @
                  '' at path '' @ realPath this @ '':'') #
                 map (\<lambda>p. ''   Excluding invalid/malformed/missing addon at relative path '' @
                           [CHR 0x27] @ relative path (realPath this) (realPath p) @ [CHR 0x27])
                     (getInvalidPackages l)
            else [])"
    using dump_first[of this cache path l] run1
    by (simp add: warnHeader_def warnLine_def Let_def)
  show ?thesis
    using first by (simp only: Let_def run1 run2 same prod.case)
qed

theorem build_twice_witness:
  "snd (dumpInvalidAddonPackages stub_cache stub_path app_node [addon_a, broken_c]) =
     [''For project at path /proj:'',
      ''   Excluding invalid/malformed/missing addon at relative path '' @
        [CHR 0x27] @ ''lib/c'' @ [CHR 0x27]] \<and>
   snd (dumpInvalidAddonPackages stub_cache stub_path
          (fst (dumpInvalidAddonPackages stub_cache stub_path app_node [addon_a, broken_c]))
          [addon_a, broken_c]) = [] \<and>
   generateAddonPackages
     (fst (dumpInvalidAddonPackages stub_cache stub_path app_node [addon_a, broken_c]))
     [addon_a, broken_c] None =
   generateAddonPackages app_node [addon_a, broken_c] None"
proof -
  have fresh: "\<not> hasDumpedInvalidAddonPackages app_node"
    by (simp add: app_node_def)
  have inv: "getInvalidPackages [addon_a, broken_c] = [broken_c]"
    by (simp add: getInvalidPackages_def addon_a_def broken_c_def new_PackageInfo_def)
  have f: "ui stub_cache = Some \<lparr>writeWarnLine = True\<rparr>"
    "project app_node = Some \<lparr>isEmberCLIAddon = True\<rparr>"
    "realPath app_node = ''/proj''" "realPath broken_c = ''/proj/lib/c''"
    "relative stub_path ''/proj'' ''/proj/lib/c'' = ''lib/c''"
    by (simp_all add: stub_cache_def app_node_def broken_c_def stub_path_def)
  show ?thesis
    using build_twice[of app_node "[addon_a, broken_c]" None stub_cache stub_path] fresh
    by (auto simp: Let_def inv f split: prod.splits)
qed

text \<open>
  C9: the first call of \<open>dumpInvalidAddonPackages\<close> sets the one-time flag whether or not
  it reports anything. If the list has no invalid candidate, or the cache has no warning
  channel, the call writes nothing; and every later call on the resulting node, with any
  cache and any list, writes nothing and leaves the node as it is.
\<close>

theorem dump_flag_set_regardless:
  "let (this1, out1) = dumpInvalidAddonPackages cache path this l
   in hasDumpedInvalidAddonPackages this1 \<and>
      (getInvalidPackages l = [] \<or> ui cache = None \<or>
         (\<exists>u. ui cache = Some u \<and> \<not> writeWarnLine u) \<longrightarrow> out1 = []) \<and>
      (\<forall>cache' path' l'. dumpInvalidAddonPackages cache' path' this1 l' = (this1, []))"
proof -
  obtain this1 out1 where run1: "dumpInvalidAddonPackages cache path this l = (this1, out1)"
    by (cases "dumpInvalidAddonPackages cache path this l")
  have flag: "hasDumpedInvalidAddonPackages this1"
    using dump_sets_flag[of cache path this l] run1 by simp
  have later: "\<forall>cache' path' l'. dumpInvalidAddonPackages cache' path' this1 l' = (this1, [])"
    using flag by (simp add: dump_after_flag)
  have quiet: "getInvalidPackages l = [] \<or> ui cache = None \<or>
         (\<exists>u. ui cache = Some u \<and> \<not> writeWarnLine u) \<longrightarrow> out1 = []"
    using run1 by (auto simp: dumpInvalidAddonPackages_def Let_def split: if_splits)
  show ?thesis
    using flag later quiet by (simp only: run1 prod.case Let_def) simp
qed

theorem dump_flag_set_regardless_witness:
  "snd (dumpInvalidAddonPackages silent_cache stub_path app_node [addon_a, broken_c]) = [] \<and>
   hasDumpedInvalidAddonPackages
     (fst (dumpInvalidAddonPackages silent_cache stub_path app_node [addon_a, broken_c])) \<and>
   snd (dumpInvalidAddonPackages stub_cache stub_path
          (fst (dumpInvalidAddonPackages silent_cache stub_path app_node [addon_a, broken_c]))
          [broken_c]) = [] \<and>
   getInvalidPackages [broken_c] \<noteq> [] \<and>
   ui stub_cache = Some \<lparr>writeWarnLine = True\<rparr> \<and>
   \<not> hasDumpedInvalidAddonPackages app_node"
proof -
  have f: "ui silent_cache = None" "ui stub_cache = Some \<lparr>writeWarnLine = True\<rparr>"
    "\<not> hasDumpedInvalidAddonPackages app_node" "getInvalidPackages [broken_c] \<noteq> []"
    by (simp_all add: silent_cache_def stub_cache_def app_node_def getInvalidPackages_def
        broken_c_def)
  show ?thesis
    using dump_flag_set_regardless[of silent_cache stub_path app_node "[addon_a, broken_c]"] f
    by (auto simp: Let_def split: prod.splits)
qed

text \<open>
  C7: applied to an absent dependency spec, or to one with no declared name,
  \<open>addDependencies\<close> returns null, not an empty mapping, and leaves the node (and so its
  error list) as it was; the ascending-directory search is not called.
\<close>

theorem addDependencies_absent_or_empty:
  "addDependencies cache path this None = (None, this, []) \<and>
   addDependencies cache path this (Some []) = (None, this, []) \<and>
   fst (addDependencies cache path this (Some [])) \<noteq> Some []"
  by (simp add: addDependencies_def Object_keys_def)

end
